theory Spec2Isabelle
  imports Complex_Main
begin

section \<open>Python values, exceptions and dictionaries\<close>

text \<open>
  The module \<^verbatim>\<open>torch_autoneb/__init__.py\<close> works on networkx graphs whose nodes are
  minima and whose parallel edges are NEB cycles. A node identifier and a cycle key are
  integers; an attribute name is a string; an attribute value is a Python number or a
  tensor. A Python float is read as a real number (only comparisons and the constant
  \<open>1\<close> occur; NaN is outside the model).
\<close>

type_synonym node = int
type_synonym cycle_key = int

datatype error =
    KeyError
  | IndexError
  | TypeError
  | AttributeError
  | AssertionError
  | RuntimeError
  | FileNotFoundError
  | ValueError string

datatype 'a outcome = Returned 'a | Raised error

datatype val =
    PyInt int
  | PyFloat real
  | Tensor1 "real list"
  | Tensor2 "real list list"

text \<open>An attribute dictionary (\<^verbatim>\<open>dict\<close> with string keys), compared as Python's \<^verbatim>\<open>==\<close> does.\<close>

type_synonym attrs = "string \<rightharpoonup> val"

text \<open>
  The key dictionary of one pair: cycle key to attribute dictionary, in insertion order
  (the order in which Python iterates a \<^verbatim>\<open>dict\<close>).
\<close>

type_synonym keydict = "(cycle_key \<times> attrs) list"

text \<open>
  The number a value stands for when Python takes the truth value of a comparison: a
  number itself, or the single element of a one-element tensor. A comparison with any
  other tensor has no truth value (torch raises RuntimeError).
\<close>

fun scalar_of :: "val \<Rightarrow> real option" where
  "scalar_of (PyInt i) = Some (of_int i)"
| "scalar_of (PyFloat x) = Some x"
| "scalar_of (Tensor1 xs) = (case xs of [x] \<Rightarrow> Some x | _ \<Rightarrow> None)"
| "scalar_of (Tensor2 rows) = (case rows of [[x]] \<Rightarrow> Some x | _ \<Rightarrow> None)"

definition py_lt :: "val \<Rightarrow> val \<Rightarrow> error + bool" where
  "py_lt a b =
     (case scalar_of a of
        None \<Rightarrow> Inl RuntimeError
      | Some x \<Rightarrow> (case scalar_of b of None \<Rightarrow> Inl RuntimeError | Some y \<Rightarrow> Inr (x < y)))"

text \<open>
  \<^verbatim>\<open>min(iterable, key=f)\<close>: \<^verbatim>\<open>f\<close> is applied to every item in iteration order; a
  later item replaces the current best only when its key is strictly less, so the first
  minimal item is returned. An empty iterable raises ValueError.
\<close>

fun min_from :: "('k \<Rightarrow> error + val) \<Rightarrow> 'k \<Rightarrow> val \<Rightarrow> 'k list \<Rightarrow> error + 'k" where
  "min_from f best bestv [] = Inr best"
| "min_from f best bestv (k # ks) =
     (case f k of
        Inl e \<Rightarrow> Inl e
      | Inr v \<Rightarrow>
          (case py_lt v bestv of
             Inl e \<Rightarrow> Inl e
           | Inr smaller \<Rightarrow> if smaller then min_from f k v ks else min_from f best bestv ks))"

definition py_min :: "('k \<Rightarrow> error + val) \<Rightarrow> 'k list \<Rightarrow> error + 'k" where
  "py_min f ks =
     (case ks of
        [] \<Rightarrow> Inl (ValueError ''min() arg is an empty sequence'')
      | k # rest \<Rightarrow> (case f k of Inl e \<Rightarrow> Inl e | Inr v \<Rightarrow> min_from f k v rest))"

text \<open>\<^verbatim>\<open>xs[i]\<close> on a list: a negative index counts from the end.\<close>

definition py_getitem :: "'a list \<Rightarrow> int \<Rightarrow> error + 'a" where
  "py_getitem xs i =
     (if 0 \<le> i \<and> i < int (length xs) then Inr (xs ! nat i)
      else if i < 0 \<and> - int (length xs) \<le> i then Inr (xs ! nat (int (length xs) + i))
      else Inl IndexError)"

section \<open>networkx graphs\<close>

text \<open>
  \<^verbatim>\<open>networkx.MultiGraph\<close> keeps \<^verbatim>\<open>_node\<close> (node to attribute dict) and \<^verbatim>\<open>_adj\<close>
  (node to neighbour to key dict); \<^verbatim>\<open>_adj[u][v]\<close> and \<^verbatim>\<open>_adj[v][u]\<close> are one shared
  key-dict object. The model keeps the nodes in insertion order and one entry per
  unordered pair, in the order in which the pairs were first connected, so that a write
  through \<^verbatim>\<open>graph[u][v]\<close> is seen through \<^verbatim>\<open>graph[v][u]\<close>.
\<close>

record multigraph =
  mg_node :: "(node \<times> attrs) list"
  mg_adj :: "((node \<times> node) \<times> keydict) list"

definition same_pair :: "node \<times> node \<Rightarrow> node \<Rightarrow> node \<Rightarrow> bool" where
  "same_pair p u v \<longleftrightarrow> (fst p = u \<and> snd p = v) \<or> (fst p = v \<and> snd p = u)"

fun find_pair :: "node \<Rightarrow> node \<Rightarrow> ((node \<times> node) \<times> 'a) list \<Rightarrow> 'a option" where
  "find_pair u v [] = None"
| "find_pair u v (e # es) = (if same_pair (fst e) u v then Some (snd e) else find_pair u v es)"

text \<open>\<^verbatim>\<open>graph[u]\<close> iterated: the neighbours of \<^verbatim>\<open>u\<close> in insertion order.\<close>

fun neighbours :: "node \<Rightarrow> ((node \<times> node) \<times> 'a) list \<Rightarrow> node list" where
  "neighbours u [] = []"
| "neighbours u (e # es) =
     (if fst (fst e) = u then snd (fst e) # neighbours u es
      else if snd (fst e) = u then fst (fst e) # neighbours u es
      else neighbours u es)"

text \<open>\<^verbatim>\<open>graph[u][v]\<close>: KeyError when \<^verbatim>\<open>u\<close> is no node or \<^verbatim>\<open>v\<close> is no neighbour of it.\<close>

definition mg_getitem :: "multigraph \<Rightarrow> node \<Rightarrow> node \<Rightarrow> error + keydict" where
  "mg_getitem graph u v =
     (if u \<notin> fst ` set (mg_node graph) then Inl KeyError
      else case find_pair u v (mg_adj graph) of None \<Rightarrow> Inl KeyError | Some kd \<Rightarrow> Inr kd)"

text \<open>Replacing the value stored under a cycle key / the key dict of a pair, in place.\<close>

fun set_key :: "cycle_key \<Rightarrow> attrs \<Rightarrow> keydict \<Rightarrow> keydict" where
  "set_key k d [] = [(k, d)]"
| "set_key k d (e # es) = (if fst e = k then (k, d) # es else e # set_key k d es)"

fun map_pair :: "node \<Rightarrow> node \<Rightarrow> ('a \<Rightarrow> 'a) \<Rightarrow> ((node \<times> node) \<times> 'a) list \<Rightarrow> ((node \<times> node) \<times> 'a) list" where
  "map_pair u v f [] = []"
| "map_pair u v f (e # es) =
     (if same_pair (fst e) u v then (fst e, f (snd e)) # es else e # map_pair u v f es)"

text \<open>
  \<^verbatim>\<open>MultiGraph.add_edge(u, v, key=k, **attr)\<close>: missing end points become nodes with no
  attributes; the attributes are merged into the dict stored under \<^verbatim>\<open>k\<close>, which is
  created at the end of the pair's key dict when \<^verbatim>\<open>k\<close> is new.
\<close>

definition mg_ensure_node :: "node \<Rightarrow> (node \<times> attrs) list \<Rightarrow> (node \<times> attrs) list" where
  "mg_ensure_node u ns = (if u \<in> fst ` set ns then ns else ns @ [(u, Map.empty)])"

definition merge_key :: "cycle_key \<Rightarrow> attrs \<Rightarrow> keydict \<Rightarrow> keydict" where
  "merge_key k attr kd =
     set_key k (case map_of kd k of None \<Rightarrow> attr | Some old \<Rightarrow> old ++ attr) kd"

definition mg_add_edge :: "node \<Rightarrow> node \<Rightarrow> cycle_key \<Rightarrow> attrs \<Rightarrow> multigraph \<Rightarrow> multigraph" where
  "mg_add_edge u v k attr graph =
     \<lparr> mg_node = mg_ensure_node v (mg_ensure_node u (mg_node graph)),
       mg_adj = (case find_pair u v (mg_adj graph) of
                   None \<Rightarrow> mg_adj graph @ [((u, v), [(k, attr)])]
                 | Some kd \<Rightarrow> map_pair u v (merge_key k attr) (mg_adj graph)) \<rparr>"

text \<open>
  \<^verbatim>\<open>networkx.Graph\<close>: node to attribute dict, and one attribute dict per connected
  unordered pair (again shared by both directions).
\<close>

record simple_graph =
  sg_node :: "node \<rightharpoonup> attrs"
  sg_adj :: "node \<Rightarrow> node \<rightharpoonup> attrs"

definition empty_graph :: simple_graph where
  "empty_graph = \<lparr> sg_node = Map.empty, sg_adj = (\<lambda>u. Map.empty) \<rparr>"

definition merge_into :: "attrs option \<Rightarrow> attrs \<Rightarrow> attrs" where
  "merge_into old attr = (case old of None \<Rightarrow> attr | Some d \<Rightarrow> d ++ attr)"

definition sg_add_node :: "node \<Rightarrow> attrs \<Rightarrow> simple_graph \<Rightarrow> simple_graph" where
  "sg_add_node n attr sg = sg\<lparr> sg_node := (sg_node sg)(n \<mapsto> merge_into (sg_node sg n) attr) \<rparr>"

definition sg_add_edge :: "node \<Rightarrow> node \<Rightarrow> attrs \<Rightarrow> simple_graph \<Rightarrow> simple_graph" where
  "sg_add_edge u v attr sg =
     (let with_u = sg_add_node u Map.empty sg;
          with_v = sg_add_node v Map.empty with_u;
          datadict = merge_into (sg_adj sg u v) attr
      in with_v\<lparr> sg_adj := (\<lambda>a b. if same_pair (a, b) u v then Some datadict
                                    else sg_adj sg a b) \<rparr>)"

section \<open>The Graph Reducer: \<^verbatim>\<open>to_simple_graph\<close>\<close>

text \<open>
  The reducer reads and writes the multigraph it is given, so its model threads the
  multigraph through the loops and returns it beside the result.
\<close>

type_synonym reducer_state = "multigraph \<times> simple_graph"

text \<open>\<^verbatim>\<open>for node in graph: simple_graph.add_node(node, **graph.nodes[node])\<close>\<close>

fun copy_nodes :: "multigraph \<Rightarrow> node list \<Rightarrow> simple_graph \<Rightarrow> error + simple_graph" where
  "copy_nodes graph [] sg = Inr sg"
| "copy_nodes graph (n # ns) sg =
     (case map_of (mg_node graph) n of
        None \<Rightarrow> Inl KeyError
      | Some attr \<Rightarrow> copy_nodes graph ns (sg_add_node n attr sg))"

text \<open>The key function of line 125: \<^verbatim>\<open>lambda key: graph[m1][m2][key][weight_key]\<close>.\<close>

definition key_weight :: "string \<Rightarrow> keydict \<Rightarrow> cycle_key \<Rightarrow> error + val" where
  "key_weight weight_key kd key =
     (case map_of kd key of
        None \<Rightarrow> Inl KeyError
      | Some d \<Rightarrow> (case d weight_key of None \<Rightarrow> Inl KeyError | Some w \<Rightarrow> Inr w))"

definition edge_weight :: "string \<Rightarrow> multigraph \<Rightarrow> node \<Rightarrow> node \<Rightarrow> cycle_key \<Rightarrow> error + val" where
  "edge_weight weight_key graph m1 m2 key =
     (case mg_getitem graph m1 m2 of
        Inl e \<Rightarrow> Inl e
      | Inr kd \<Rightarrow> key_weight weight_key kd key)"

text \<open>
  The body of the inner loop (lines 125 to 128). \<^verbatim>\<open>best_edge_data\<close> is the attribute
  dict stored in the multigraph, not a copy, so line 127 writes \<^verbatim>\<open>cycle_idx\<close> into the
  multigraph; \<^verbatim>\<open>**best_edge_data\<close> then hands a copy of it to \<^verbatim>\<open>Graph.add_edge\<close>.
\<close>

definition reduce_pair :: "string \<Rightarrow> node \<Rightarrow> node \<Rightarrow> reducer_state \<Rightarrow> error + reducer_state" where
  "reduce_pair weight_key m1 m2 st =
     (let graph = fst st; simple_graph = snd st in
      case mg_getitem graph m1 m2 of
        Inl e \<Rightarrow> Inl e
      | Inr kd \<Rightarrow>
          (case py_min (edge_weight weight_key graph m1 m2) (map fst kd) of
             Inl e \<Rightarrow> Inl e
           | Inr best_edge_key \<Rightarrow>
               (case map_of kd best_edge_key of
                  None \<Rightarrow> Inl KeyError
                | Some stored \<Rightarrow>
                    let best_edge_data = stored(''cycle_idx'' \<mapsto> PyInt best_edge_key);
                        graph' = graph\<lparr> mg_adj := map_pair m1 m2 (set_key best_edge_key best_edge_data)
                                                      (mg_adj graph) \<rparr>
                    in Inr (graph', sg_add_edge m1 m2 best_edge_data simple_graph))))"

text \<open>\<^verbatim>\<open>for m2 in graph[m1]\<close> and \<^verbatim>\<open>for m1 in graph\<close>; an exception leaves the state as it is.\<close>

fun reduce_neighbours :: "string \<Rightarrow> node \<Rightarrow> node list \<Rightarrow> reducer_state \<Rightarrow> error option \<times> reducer_state" where
  "reduce_neighbours weight_key m1 [] st = (None, st)"
| "reduce_neighbours weight_key m1 (m2 # ms) st =
     (case reduce_pair weight_key m1 m2 st of
        Inl e \<Rightarrow> (Some e, st)
      | Inr st' \<Rightarrow> reduce_neighbours weight_key m1 ms st')"

fun reduce_nodes :: "string \<Rightarrow> node list \<Rightarrow> reducer_state \<Rightarrow> error option \<times> reducer_state" where
  "reduce_nodes weight_key [] st = (None, st)"
| "reduce_nodes weight_key (m1 # ms) st =
     (case reduce_neighbours weight_key m1 (neighbours m1 (mg_adj (fst st))) st of
        (Some e, st') \<Rightarrow> (Some e, st')
      | (None, st') \<Rightarrow> reduce_nodes weight_key ms st')"

text \<open>
  \<^verbatim>\<open>to_simple_graph(graph, weight_key)\<close>: what the call returns or raises, and the
  multigraph object as the call leaves it.
\<close>

definition to_simple_graph :: "multigraph \<Rightarrow> string \<Rightarrow> simple_graph outcome \<times> multigraph" where
  "to_simple_graph graph weight_key =
     (case copy_nodes graph (map fst (mg_node graph)) empty_graph of
        Inl e \<Rightarrow> (Raised e, graph)
      | Inr simple_graph \<Rightarrow>
          (case reduce_nodes weight_key (map fst (mg_node graph)) (graph, simple_graph) of
             (Some e, st) \<Rightarrow> (Raised e, fst st)
           | (None, st) \<Rightarrow> (Returned (snd st), fst st)))"

section \<open>The optional progress reporter: \<^verbatim>\<open>pbar\<close>\<close>

text \<open>
  Lines 12 to 29 bind the name \<^verbatim>\<open>pbar\<close> to \<^verbatim>\<open>tqdm.tqdm\<close> or, when tqdm is not
  installed, to the fallback class of the module. \<^verbatim>\<open>tqdm.__enter__\<close> returns the bar
  itself; the fallback's \<^verbatim>\<open>__enter__\<close> has the body \<^verbatim>\<open>pass\<close> and so returns
  \<^verbatim>\<open>None\<close>, which is what \<^verbatim>\<open>with pbar(...) as bar\<close> binds to \<^verbatim>\<open>bar\<close>.
\<close>

datatype reporter = Tqdm | Fallback

datatype bar = Bar reporter

text \<open>\<^verbatim>\<open>for x in pbar(iterable)\<close>: both classes yield the items of the iterable.\<close>

definition pbar_iter :: "reporter \<Rightarrow> 'a list \<Rightarrow> 'a list" where
  "pbar_iter r xs = (case r of Tqdm \<Rightarrow> xs | Fallback \<Rightarrow> xs)"

definition pbar_enter :: "reporter \<Rightarrow> bar option" where
  "pbar_enter r = (case r of Tqdm \<Rightarrow> Some (Bar Tqdm) | Fallback \<Rightarrow> None)"

text \<open>\<^verbatim>\<open>bar.update()\<close>: \<^verbatim>\<open>None\<close> has no attribute \<^verbatim>\<open>update\<close>.\<close>

definition bar_update :: "bar option \<Rightarrow> error option" where
  "bar_update b = (case b of None \<Rightarrow> Some AttributeError | Some _ \<Rightarrow> None)"

section \<open>The Path Optimizer: \<^verbatim>\<open>neb\<close>\<close>

text \<open>
  \<^verbatim>\<open>neb(previous_cycle_data, model, config)\<close> of lines 55 to 78. The fill strategy and
  the relaxation (the NEB model, the optimiser's steps and the analysis) are
  collaborators outside this module, so they are parameters. \<^verbatim>\<open>result.update(...)\<close>
  lets the analysis overwrite the two fields set before it.
\<close>

record ('m, 'h) neb_collaborators =
  fill :: "'h \<Rightarrow> val \<Rightarrow> val \<Rightarrow> attrs \<Rightarrow> error + val \<times> val"
  relax :: "'m \<Rightarrow> 'h \<Rightarrow> val \<Rightarrow> val \<Rightarrow> error + val \<times> attrs"

definition neb :: "('m, 'h) neb_collaborators \<Rightarrow> attrs \<Rightarrow> 'm \<Rightarrow> 'h \<Rightarrow> error + attrs" where
  "neb collab previous_cycle_data model config =
     (case previous_cycle_data ''path_coords'' of
        None \<Rightarrow> Inl KeyError
      | Some previous_path_coords \<Rightarrow>
     (case previous_cycle_data ''target_distances'' of
        None \<Rightarrow> Inl KeyError
      | Some previous_target_distances \<Rightarrow>
     (case fill collab config previous_path_coords previous_target_distances previous_cycle_data of
        Inl e \<Rightarrow> Inl e
      | Inr (start_path, target_distances) \<Rightarrow>
     (case relax collab model config start_path target_distances of
        Inl e \<Rightarrow> Inl e
      | Inr (path_coords, analysis) \<Rightarrow>
          Inr ([''path_coords'' \<mapsto> path_coords, ''target_distances'' \<mapsto> target_distances]
               ++ analysis)))))"

text \<open>
  What \<^verbatim>\<open>auto_neb\<close> calls under the name \<^verbatim>\<open>neb\<close>, with the five positional arguments
  of line 99.
\<close>

type_synonym ('m, 'h) neb_callee = "node \<Rightarrow> node \<Rightarrow> attrs \<Rightarrow> 'm \<Rightarrow> 'h \<Rightarrow> error + attrs"

text \<open>
  The module's own binding: \<^verbatim>\<open>neb\<close> declares three parameters and none of them
  collects extra arguments, so Python raises TypeError when the call binds its five
  arguments, before the body of \<^verbatim>\<open>neb\<close> runs.
\<close>

definition neb_parameters :: nat where
  "neb_parameters = 3"

definition neb_call_arguments :: nat where
  "neb_call_arguments = 5"

definition call_neb :: "('m, 'h) neb_collaborators \<Rightarrow> ('m, 'h) neb_callee" where
  "call_neb collab m1 m2 previous_cycle_data model cycle_config =
     (if neb_call_arguments = neb_parameters
      then neb collab previous_cycle_data model cycle_config
      else Inl TypeError)"


section \<open>The Cycle Manager: \<^verbatim>\<open>auto_neb\<close>\<close>

record 'h auto_neb_hyperparameters =
  cycle_count :: int
  hyperparameter_sets :: "'h list"

text \<open>
  \<^verbatim>\<open>tensor.view(1, -1)\<close> makes one row of all elements (RuntimeError for a tensor with
  no element; a number has no \<^verbatim>\<open>view\<close>), and \<^verbatim>\<open>torch.cat\<close> of two rows wants rows
  of one length.
\<close>

fun view_row :: "val \<Rightarrow> error + real list" where
  "view_row (PyInt i) = Inl AttributeError"
| "view_row (PyFloat x) = Inl AttributeError"
| "view_row (Tensor1 xs) = (if xs = [] then Inl RuntimeError else Inr xs)"
| "view_row (Tensor2 rows) = (if concat rows = [] then Inl RuntimeError else Inr (concat rows))"

definition node_coords_row :: "multigraph \<Rightarrow> node \<Rightarrow> error + real list" where
  "node_coords_row graph m =
     (case map_of (mg_node graph) m of
        None \<Rightarrow> Inl KeyError
      | Some attr \<Rightarrow> (case attr ''coords'' of None \<Rightarrow> Inl KeyError | Some c \<Rightarrow> view_row c))"

text \<open>Lines 89 to 92: the seed of a pair with no cycle yet.\<close>

definition fresh_cycle_data :: "multigraph \<Rightarrow> node \<Rightarrow> node \<Rightarrow> error + attrs" where
  "fresh_cycle_data graph m1 m2 =
     (case node_coords_row graph m1 of
        Inl e \<Rightarrow> Inl e
      | Inr row1 \<Rightarrow>
          (case node_coords_row graph m2 of
             Inl e \<Rightarrow> Inl e
           | Inr row2 \<Rightarrow>
               if length row1 \<noteq> length row2 then Inl RuntimeError
               else Inr [''path_coords'' \<mapsto> Tensor2 [row1, row2],
                         ''target_distances'' \<mapsto> Tensor1 [1]]))"

text \<open>
  Lines 83 to 93. \<^verbatim>\<open>existing_edges\<close> is already the key dict \<^verbatim>\<open>graph[m1][m2]\<close>, so
  \<^verbatim>\<open>existing_edges[m1][m2]\<close> of line 85 looks the node \<^verbatim>\<open>m1\<close> up among the cycle keys
  and then the node \<^verbatim>\<open>m2\<close> among the attribute names of the cycle found. An attribute
  name is a string and \<^verbatim>\<open>m2\<close> is an integer, so the second look-up raises KeyError
  whatever the first one found.
\<close>

definition auto_neb_seed :: "node \<Rightarrow> node \<Rightarrow> multigraph \<Rightarrow> error + attrs \<times> int" where
  "auto_neb_seed m1 m2 graph =
     (case mg_getitem graph m1 m2 of
        Inl e \<Rightarrow> Inl e
      | Inr existing_edges \<Rightarrow>
          if length existing_edges > 0 then
            (case map_of existing_edges m1 of
               None \<Rightarrow> Inl KeyError
             | Some cycle \<Rightarrow> Inl KeyError)
          else
            (case fresh_cycle_data graph m1 m2 of
               Inl e \<Rightarrow> Inl e
             | Inr previous_cycle_data \<Rightarrow> Inr (previous_cycle_data, 1)))"

text \<open>
  One record per call of the Path Optimizer: the loop variable and the arguments the
  call was given. The list of these records is kept beside the graph to state what the
  loop passes on; the code has no such list.
\<close>

record 'h neb_call =
  at_cycle :: int
  given_data :: attrs
  given_config :: 'h

text \<open>
  The loop of lines 97 to 100 over the values of \<^verbatim>\<open>range(start_cycle_idx, cycle_count + 1)\<close>
  still to come. Neither \<^verbatim>\<open>previous_cycle_data\<close> nor \<^verbatim>\<open>start_cycle_idx\<close> is assigned
  in the loop.
\<close>

fun run_cycles ::
  "('m, 'h) neb_callee \<Rightarrow> node \<Rightarrow> node \<Rightarrow> attrs \<Rightarrow> 'm \<Rightarrow> 'h auto_neb_hyperparameters \<Rightarrow> int \<Rightarrow>
   int list \<Rightarrow> multigraph \<times> 'h neb_call list \<Rightarrow> error option \<times> multigraph \<times> 'h neb_call list" where
  "run_cycles callee m1 m2 previous_cycle_data model config start_cycle_idx [] st = (None, st)"
| "run_cycles callee m1 m2 previous_cycle_data model config start_cycle_idx (cycle_idx # rest) st =
     (case py_getitem (hyperparameter_sets config) (start_cycle_idx - 1) of
        Inl e \<Rightarrow> (Some e, st)
      | Inr cycle_config \<Rightarrow>
          (let calls = snd st @ [\<lparr> at_cycle = cycle_idx, given_data = previous_cycle_data,
                                   given_config = cycle_config \<rparr>]
           in case callee m1 m2 previous_cycle_data model cycle_config of
                Inl e \<Rightarrow> (Some e, fst st, calls)
              | Inr connection_data \<Rightarrow>
                  run_cycles callee m1 m2 previous_cycle_data model config start_cycle_idx rest
                    (mg_add_edge m1 m2 cycle_idx connection_data (fst st), calls)))"

record 'h auto_neb_run =
  result :: "unit outcome"
  graph_after :: multigraph
  neb_calls :: "'h neb_call list"

definition auto_neb_with ::
  "reporter \<Rightarrow> ('m, 'h) neb_callee \<Rightarrow> node \<Rightarrow> node \<Rightarrow> multigraph \<Rightarrow> 'm \<Rightarrow>
   'h auto_neb_hyperparameters \<Rightarrow> 'h auto_neb_run" where
  "auto_neb_with pbar callee m1 m2 graph model config =
     (case auto_neb_seed m1 m2 graph of
        Inl e \<Rightarrow> \<lparr> result = Raised e, graph_after = graph, neb_calls = [] \<rparr>
      | Inr (previous_cycle_data, start_cycle_idx) \<Rightarrow>
          if \<not> start_cycle_idx \<le> cycle_count config
          then \<lparr> result = Raised AssertionError, graph_after = graph, neb_calls = [] \<rparr>
          else
            (case run_cycles callee m1 m2 previous_cycle_data model config start_cycle_idx
                    (pbar_iter pbar [start_cycle_idx..cycle_count config]) (graph, []) of
               (None, graph', calls) \<Rightarrow>
                 \<lparr> result = Returned (), graph_after = graph', neb_calls = calls \<rparr>
             | (Some e, graph', calls) \<Rightarrow>
                 \<lparr> result = Raised e, graph_after = graph', neb_calls = calls \<rparr>))"

text \<open>\<^verbatim>\<open>auto_neb\<close> as the module has it, with the name \<^verbatim>\<open>neb\<close> bound to the module's function.\<close>

definition auto_neb ::
  "reporter \<Rightarrow> ('m, 'h) neb_collaborators \<Rightarrow> node \<Rightarrow> node \<Rightarrow> multigraph \<Rightarrow> 'm \<Rightarrow>
   'h auto_neb_hyperparameters \<Rightarrow> 'h auto_neb_run" where
  "auto_neb pbar collab = auto_neb_with pbar (call_neb collab)"

text \<open>The cycle keys of a pair, as a set.\<close>

definition cycle_indices :: "multigraph \<Rightarrow> node \<Rightarrow> node \<Rightarrow> cycle_key set" where
  "cycle_indices graph m1 m2 =
     (case find_pair m1 m2 (mg_adj graph) of None \<Rightarrow> {} | Some kd \<Rightarrow> fst ` set kd)"

section \<open>The Exploration Loop: \<^verbatim>\<open>landscape_exploration\<close>\<close>

text \<open>
  Modelled from the spec: \<^verbatim>\<open>suggest_pair\<close> of \<^verbatim>\<open>torch_autoneb.suggest\<close> is not among
  the sources. The spec gives its contract only: from the graph and the two attribute
  keys it produces one pair of nodes or \<^verbatim>\<open>(None, None)\<close>. It is a parameter here, a
  function of the graph and of the number of suggestions made before.
\<close>

type_synonym suggester = "nat \<Rightarrow> multigraph \<Rightarrow> node option \<times> node option"

text \<open>
  \<^verbatim>\<open>while True\<close> has no bound, so the loop takes fuel: \<open>None\<close> says that the fuel ran
  out before the loop left. Otherwise the result is what the call returns or raises
  and the graph as it leaves it.
\<close>

fun explore ::
  "nat \<Rightarrow> (node \<Rightarrow> node \<Rightarrow> multigraph \<Rightarrow> 'h auto_neb_run) \<Rightarrow> suggester \<Rightarrow> bar option \<Rightarrow> nat \<Rightarrow>
   multigraph \<Rightarrow> (unit outcome \<times> multigraph) option" where
  "explore 0 cycle_manager suggest_pair bar n graph = None"
| "explore (Suc fuel) cycle_manager suggest_pair bar n graph =
     (case suggest_pair n graph of
        (None, _) \<Rightarrow> Some (Returned (), graph)
      | (Some m1, None) \<Rightarrow> Some (Returned (), graph)
      | (Some m1, Some m2) \<Rightarrow>
          (let run = cycle_manager m1 m2 graph in
           case result run of
             Raised e \<Rightarrow> Some (Raised e, graph_after run)
           | Returned _ \<Rightarrow>
               (case bar_update bar of
                  Some e \<Rightarrow> Some (Raised e, graph_after run)
                | None \<Rightarrow> explore fuel cycle_manager suggest_pair bar (Suc n) (graph_after run))))"

definition landscape_exploration_with ::
  "nat \<Rightarrow> reporter \<Rightarrow> ('m, 'h) neb_callee \<Rightarrow> suggester \<Rightarrow> multigraph \<Rightarrow> 'm \<Rightarrow>
   'h auto_neb_hyperparameters \<Rightarrow> (unit outcome \<times> multigraph) option" where
  "landscape_exploration_with fuel pbar callee suggest_pair graph model auto_neb_config =
     explore fuel (\<lambda>m1 m2 g. auto_neb_with pbar callee m1 m2 g model auto_neb_config)
       suggest_pair (pbar_enter pbar) 0 graph"

definition landscape_exploration ::
  "nat \<Rightarrow> reporter \<Rightarrow> ('m, 'h) neb_collaborators \<Rightarrow> suggester \<Rightarrow> multigraph \<Rightarrow> 'm \<Rightarrow>
   'h auto_neb_hyperparameters \<Rightarrow> (unit outcome \<times> multigraph) option" where
  "landscape_exploration fuel pbar collab =
     landscape_exploration_with fuel pbar (call_neb collab)"

section \<open>Graph persistence: \<^verbatim>\<open>load_pickle_graph\<close>\<close>

text \<open>
  What \<^verbatim>\<open>pickle.load\<close> may hand back, by class: \<^verbatim>\<open>isinstance(x, MultiGraph)\<close> holds for
  a MultiGraph and for an instance of its subclass MultiDiGraph.
\<close>

datatype pyobj =
    ObjMultiGraph multigraph
  | ObjMultiDiGraph multigraph
  | ObjGraph simple_graph
  | ObjOther val

fun isinstance_MultiGraph :: "pyobj \<Rightarrow> bool" where
  "isinstance_MultiGraph (ObjMultiGraph g) = True"
| "isinstance_MultiGraph (ObjMultiDiGraph g) = True"
| "isinstance_MultiGraph (ObjGraph g) = False"
| "isinstance_MultiGraph (ObjOther v) = False"

text \<open>
  The files (name to content) and the unpickler are the environment of the call:
  \<^verbatim>\<open>open\<close> raises for a missing file and \<^verbatim>\<open>pickle.load\<close> may raise on the content.
\<close>

definition load_pickle_graph ::
  "(string \<rightharpoonup> nat list) \<Rightarrow> (nat list \<Rightarrow> error + pyobj) \<Rightarrow> string \<Rightarrow> error + pyobj" where
  "load_pickle_graph files pickle_load graph_file_name =
     (case files graph_file_name of
        None \<Rightarrow> Inl FileNotFoundError
      | Some content \<Rightarrow>
          (case pickle_load content of
             Inl e \<Rightarrow> Inl e
           | Inr graph \<Rightarrow>
               if \<not> isinstance_MultiGraph graph
               then Inl (ValueError (graph_file_name @ '' does not contain a nx.MultiGraph''))
               else Inr graph))"

section \<open>Notions for stating the properties\<close>

text \<open>
  The number a cycle carries under the weight key, when it carries one, and the two
  comparisons of cycles by it.
\<close>

definition weight :: "string \<Rightarrow> attrs \<Rightarrow> real option" where
  "weight wk d = (case d wk of None \<Rightarrow> None | Some v \<Rightarrow> scalar_of v)"



text \<open>
  What networkx maintains of a MultiGraph: the end points of every pair are nodes and a
  key dict has no key twice.
\<close>

definition well_formed :: "multigraph \<Rightarrow> bool" where
  "well_formed g \<longleftrightarrow>
     (\<forall>e \<in> set (mg_adj g).
        fst (fst e) \<in> fst ` set (mg_node g) \<and> snd (fst e) \<in> fst ` set (mg_node g) \<and>
        distinct (map fst (snd e)))"

text \<open>Every pair has a cycle and every cycle a number under the weight key.\<close>

definition weighted :: "string \<Rightarrow> multigraph \<Rightarrow> bool" where
  "weighted wk g \<longleftrightarrow>
     (\<forall>e \<in> set (mg_adj g). snd e \<noteq> [] \<and> (\<forall>c \<in> set (snd e). weight wk (snd c) \<noteq> None))"

text \<open>\<^verbatim>\<open>graph[m1][m2][key].get(name)\<close>, for reading one attribute of one cycle.\<close>

definition edge_attr :: "multigraph \<Rightarrow> node \<Rightarrow> node \<Rightarrow> cycle_key \<Rightarrow> string \<Rightarrow> val option" where
  "edge_attr graph m1 m2 key name =
     (case find_pair m1 m2 (mg_adj graph) of
        None \<Rightarrow> None
      | Some kd \<Rightarrow> (case map_of kd key of None \<Rightarrow> None | Some d \<Rightarrow> d name))"

subsection \<open>Example graphs\<close>

text \<open>
  The scenario of the specification: minima \<open>A = 1\<close> and \<open>B = 2\<close> joined by three
  cycles with the weights 5.0, 2.0 and 2.0 at the keys 1, 2 and 3.
\<close>

definition scenario_graph :: multigraph where
  "scenario_graph =
     \<lparr> mg_node = [(1, [''coords'' \<mapsto> Tensor1 [0]]), (2, [''coords'' \<mapsto> Tensor1 [4]])],
       mg_adj = [((1, 2), [(1, [''w'' \<mapsto> PyFloat 5]),
                           (2, [''w'' \<mapsto> PyFloat 2]),
                           (3, [''w'' \<mapsto> PyFloat 2])])] \<rparr>"



text \<open>
  Two minima with coordinates and no cycle between them, as \<^verbatim>\<open>add_node\<close> leaves them:
  node 2 is no neighbour of node 1.
\<close>

definition fresh_pair_graph :: multigraph where
  "fresh_pair_graph =
     \<lparr> mg_node = [(1, [''coords'' \<mapsto> Tensor1 [0]]), (2, [''coords'' \<mapsto> Tensor1 [4]])],
       mg_adj = [] \<rparr>"



text \<open>The same minima after one cycle has been stored under the key 1.\<close>

definition resumed_graph :: multigraph where
  "resumed_graph =
     \<lparr> mg_node = [(1, [''coords'' \<mapsto> Tensor1 [0]]), (2, [''coords'' \<mapsto> Tensor1 [4]])],
       mg_adj = [((1, 2), [(1, [''path_coords'' \<mapsto> Tensor2 [[0], [2], [4]],
                               ''target_distances'' \<mapsto> Tensor1 [2, 2],
                               ''w'' \<mapsto> PyFloat 3])])] \<rparr>"

text \<open>
  Stand-ins for the collaborators of \<^verbatim>\<open>neb\<close>: the fill strategy inserts the midpoint,
  the relaxation leaves the path where it is and reports a weight.
\<close>

definition midpoint_collaborators :: "(unit, nat) neb_collaborators" where
  "midpoint_collaborators =
     \<lparr> fill = (\<lambda>config path distances previous. Inr (Tensor2 [[0], [2], [4]], Tensor1 [2, 2])),
       relax = (\<lambda>model config path distances. Inr (path, [''w'' \<mapsto> PyFloat 3])) \<rparr>"

definition two_cycles :: "nat auto_neb_hyperparameters" where
  "two_cycles = \<lparr> cycle_count = 2, hyperparameter_sets = [10, 20] \<rparr>"




text \<open>Two pickled files: a MultiGraph and a simple Graph.\<close>

definition example_files :: "string \<rightharpoonup> nat list" where
  "example_files = [''graph.p'' \<mapsto> [1], ''other.p'' \<mapsto> [2]]"

definition example_pickle_load :: "nat list \<Rightarrow> error + pyobj" where
  "example_pickle_load content =
     (if content = [1] then Inr (ObjMultiGraph scenario_graph)
      else if content = [2] then Inr (ObjGraph empty_graph)
      else Inl (ValueError ''unsupported pickle protocol''))"

subsection \<open>Notions of the proofs\<close>

text \<open>The number under a key function, and the first minimal item of a list under it.\<close>

definition wt :: "('k \<Rightarrow> error + val) \<Rightarrow> 'k \<Rightarrow> real option" where
  "wt f k = (case f k of Inl e \<Rightarrow> None | Inr v \<Rightarrow> scalar_of v)"

definition first_min_at :: "('k \<Rightarrow> error + val) \<Rightarrow> 'k list \<Rightarrow> 'k \<Rightarrow> bool" where
  "first_min_at f ks r \<longleftrightarrow>
     (\<exists>before after. ks = before @ r # after \<and>
        (\<forall>k \<in> set before. the (wt f r) < the (wt f k)) \<and>
        (\<forall>k \<in> set after. the (wt f r) \<le> the (wt f k)))"

text \<open>
  What lines 125 to 127 choose from a key dict (the best key and its attributes with
  \<^verbatim>\<open>cycle_idx\<close> written), and the key dict after line 127.
\<close>

definition pick :: "string \<Rightarrow> keydict \<Rightarrow> (cycle_key \<times> attrs) option" where
  "pick wk kd =
     (case py_min (key_weight wk kd) (map fst kd) of
        Inl e \<Rightarrow> None
      | Inr k \<Rightarrow> (case map_of kd k of None \<Rightarrow> None
                  | Some d \<Rightarrow> Some (k, d(''cycle_idx'' \<mapsto> PyInt k))))"

definition mark :: "string \<Rightarrow> keydict \<Rightarrow> keydict" where
  "mark wk kd = (case pick wk kd of None \<Rightarrow> kd | Some e \<Rightarrow> set_key (fst e) (snd e) kd)"

definition good_kd :: "string \<Rightarrow> keydict \<Rightarrow> bool" where
  "good_kd wk kd \<longleftrightarrow>
     kd \<noteq> [] \<and> distinct (map fst kd) \<and> (\<forall>c \<in> set kd. weight wk (snd c) \<noteq> None)"

text \<open>
  The invariant of the two loops of \<^verbatim>\<open>to_simple_graph\<close> started on \<open>g0\<close>: nodes and
  neighbours stay, a key dict is as at the start or as after line 127, and an edge of
  the simple graph carries the choice made from the key dict of its pair.
\<close>

definition reducer_inv :: "string \<Rightarrow> multigraph \<Rightarrow> reducer_state \<Rightarrow> bool" where
  "reducer_inv wk g0 st \<longleftrightarrow>
     mg_node (fst st) = mg_node g0 \<and>
     (\<forall>u. neighbours u (mg_adj (fst st)) = neighbours u (mg_adj g0)) \<and>
     (\<forall>u v. find_pair u v (mg_adj (fst st)) = find_pair u v (mg_adj g0) \<or>
            find_pair u v (mg_adj (fst st)) = map_option (mark wk) (find_pair u v (mg_adj g0))) \<and>
     sg_node (snd st) = map_of (mg_node g0) \<and>
     (\<forall>u v. sg_adj (snd st) u v = None \<or>
            sg_adj (snd st) u v =
              map_option snd (case find_pair u v (mg_adj g0) of None \<Rightarrow> None | Some kd \<Rightarrow> pick wk kd))"

section \<open>Python's \<^verbatim>\<open>min\<close> returns the first minimal item\<close>

lemma wt_SomeE:
  assumes "wt f k \<noteq> None"
  obtains v x where "f k = Inr v" and "scalar_of v = Some x" and "wt f k = Some x"
  using assms by (cases "f k") (auto simp: wt_def)

lemma first_min_at_head:
  "\<forall>k \<in> set ks. the (wt f r) \<le> the (wt f k) \<Longrightarrow> first_min_at f (r # ks) r"
  unfolding first_min_at_def by (intro exI [of _ "[]"] exI [of _ ks]) simp

lemma first_min_at_later:
  "first_min_at f ks r \<Longrightarrow> the (wt f r) < the (wt f k) \<Longrightarrow> first_min_at f (k # ks) r"
proof -
  assume "first_min_at f ks r" and lt: "the (wt f r) < the (wt f k)"
  then obtain before after where s: "ks = before @ r # after"
    "\<forall>k \<in> set before. the (wt f r) < the (wt f k)"
    "\<forall>k \<in> set after. the (wt f r) \<le> the (wt f k)"
    unfolding first_min_at_def by blast
  show ?thesis
    unfolding first_min_at_def
    by (intro exI [of _ "k # before"] exI [of _ after]) (use s lt in simp)
qed

lemma min_from_cong:
  "\<forall>k \<in> set ks. wt f k = wt g k \<Longrightarrow> \<forall>k \<in> set ks. wt f k \<noteq> None \<Longrightarrow>
   scalar_of bv = scalar_of bv' \<Longrightarrow> scalar_of bv \<noteq> None \<Longrightarrow>
   min_from f best bv ks = min_from g best bv' ks"
proof (induction ks arbitrary: best bv bv')
  case Nil
  then show ?case by simp
next
  case (Cons k ks)
  have same: "wt f k = wt g k" using Cons.prems(1) by simp
  have "wt f k \<noteq> None" using Cons.prems(2) by simp
  then obtain v x where fk: "f k = Inr v" "scalar_of v = Some x" "wt f k = Some x"
    by (rule wt_SomeE)
  have "wt g k \<noteq> None" using fk(3) unfolding same by simp
  then obtain v' x' where gk: "g k = Inr v'" "scalar_of v' = Some x'" "wt g k = Some x'"
    by (rule wt_SomeE)
  have xx: "x' = x" using same fk gk by simp
  from Cons.prems obtain b where b: "scalar_of bv = Some b" "scalar_of bv' = Some b" by auto
  have rest1: "\<forall>k \<in> set ks. wt f k = wt g k" using Cons.prems(1) by simp
  have rest2: "\<forall>k \<in> set ks. wt f k \<noteq> None" using Cons.prems(2) by simp
  have vv: "scalar_of v = scalar_of v'" "scalar_of v \<noteq> None" using fk gk xx by simp_all
  show ?case
  proof (cases "x < b")
    case True
    have "min_from f k v ks = min_from g k v' ks"
      by (rule Cons.IH [OF rest1 rest2 vv])
    with True fk gk b xx show ?thesis by (simp add: py_lt_def)
  next
    case False
    have "min_from f best bv ks = min_from g best bv' ks"
      by (rule Cons.IH [OF rest1 rest2 Cons.prems(3,4)])
    with False fk gk b xx show ?thesis by (simp add: py_lt_def)
  qed
qed

lemma min_from_split:
  "\<forall>k \<in> set ks. wt f k \<noteq> None \<Longrightarrow> scalar_of bv = Some b \<Longrightarrow>
   \<exists>r. min_from f best bv ks = Inr r \<and>
       ((r = best \<and> (\<forall>k \<in> set ks. b \<le> the (wt f k))) \<or>
        (first_min_at f ks r \<and> the (wt f r) < b))"
proof (induction ks arbitrary: best bv b)
  case Nil
  then show ?case by simp
next
  case (Cons k ks)
  have "wt f k \<noteq> None" using Cons.prems(1) by simp
  then obtain v x where fk: "f k = Inr v" "scalar_of v = Some x" "wt f k = Some x"
    by (rule wt_SomeE)
  have rest: "\<forall>k \<in> set ks. wt f k \<noteq> None" using Cons.prems by simp
  show ?case
  proof (cases "x < b")
    case True
    then have step: "min_from f best bv (k # ks) = min_from f k v ks"
      using fk Cons.prems by (simp add: py_lt_def)
    from Cons.IH [OF rest fk(2), of k] obtain r where r: "min_from f k v ks = Inr r"
      and alt: "(r = k \<and> (\<forall>k \<in> set ks. x \<le> the (wt f k))) \<or>
                (first_min_at f ks r \<and> the (wt f r) < x)" by blast
    from alt have "first_min_at f (k # ks) r \<and> the (wt f r) < b"
    proof
      assume a: "r = k \<and> (\<forall>k \<in> set ks. x \<le> the (wt f k))"
      then have "first_min_at f (k # ks) r" using fk(3) by (simp add: first_min_at_head)
      then show ?thesis using a True fk(3) by simp
    next
      assume a: "first_min_at f ks r \<and> the (wt f r) < x"
      then have "first_min_at f (k # ks) r" using fk(3) by (simp add: first_min_at_later)
      then show ?thesis using a True by simp
    qed
    then show ?thesis using step r by simp
  next
    case False
    then have step: "min_from f best bv (k # ks) = min_from f best bv ks"
      using fk Cons.prems by (simp add: py_lt_def)
    from Cons.IH [OF rest Cons.prems(2), of best] obtain r where r: "min_from f best bv ks = Inr r"
      and alt: "(r = best \<and> (\<forall>k \<in> set ks. b \<le> the (wt f k))) \<or>
                (first_min_at f ks r \<and> the (wt f r) < b)" by blast
    from alt have "(r = best \<and> (\<forall>k' \<in> set (k # ks). b \<le> the (wt f k'))) \<or>
                   (first_min_at f (k # ks) r \<and> the (wt f r) < b)"
    proof
      assume a: "r = best \<and> (\<forall>k \<in> set ks. b \<le> the (wt f k))"
      then show ?thesis using False fk(3) by simp
    next
      assume a: "first_min_at f ks r \<and> the (wt f r) < b"
      then have "first_min_at f (k # ks) r" using fk(3) False by (simp add: first_min_at_later)
      then show ?thesis using a by simp
    qed
    then show ?thesis using step r by simp
  qed
qed

lemma py_min_split:
  assumes "ks \<noteq> []" and "\<forall>k \<in> set ks. wt f k \<noteq> None"
  shows "\<exists>r. py_min f ks = Inr r \<and> first_min_at f ks r"
proof -
  from assms(1) obtain k rest where ks: "ks = k # rest" by (cases ks) auto
  have "wt f k \<noteq> None" using assms(2) ks by simp
  then obtain v x where fk: "f k = Inr v" "scalar_of v = Some x" "wt f k = Some x"
    by (rule wt_SomeE)
  have rest: "\<forall>k \<in> set rest. wt f k \<noteq> None" using assms(2) ks by simp
  have pm: "py_min f ks = min_from f k v rest" using ks fk by (simp add: py_min_def)
  from min_from_split [OF rest fk(2), of k] obtain r where r: "min_from f k v rest = Inr r"
    and alt: "(r = k \<and> (\<forall>k \<in> set rest. x \<le> the (wt f k))) \<or>
              (first_min_at f rest r \<and> the (wt f r) < x)" by blast
  from alt have "first_min_at f (k # rest) r"
  proof
    assume "r = k \<and> (\<forall>k \<in> set rest. x \<le> the (wt f k))"
    then show ?thesis using fk(3) by (simp add: first_min_at_head)
  next
    assume "first_min_at f rest r \<and> the (wt f r) < x"
    then show ?thesis using fk(3) by (simp add: first_min_at_later)
  qed
  then show ?thesis using pm r ks by simp
qed

lemma py_min_cong:
  assumes "\<forall>k \<in> set ks. wt f k = wt g k" and "\<forall>k \<in> set ks. wt f k \<noteq> None"
  shows "py_min f ks = py_min g ks"
proof (cases ks)
  case Nil
  then show ?thesis by (simp add: py_min_def)
next
  case (Cons k rest)
  have same: "wt f k = wt g k" using assms(1) Cons by simp
  have "wt f k \<noteq> None" using assms(2) Cons by simp
  then obtain v x where fk: "f k = Inr v" "scalar_of v = Some x" "wt f k = Some x"
    by (rule wt_SomeE)
  have "wt g k \<noteq> None" using fk(3) unfolding same by simp
  then obtain v' x' where gk: "g k = Inr v'" "scalar_of v' = Some x'" "wt g k = Some x'"
    by (rule wt_SomeE)
  have "min_from f k v rest = min_from g k v' rest"
  proof (rule min_from_cong)
    show "\<forall>k \<in> set rest. wt f k = wt g k" using assms(1) Cons by simp
    show "\<forall>k \<in> set rest. wt f k \<noteq> None" using assms(2) Cons by simp
    show "scalar_of v = scalar_of v'" using fk gk same by simp
    show "scalar_of v \<noteq> None" using fk by simp
  qed
  then show ?thesis using Cons fk gk by (simp add: py_min_def)
qed

section \<open>The choice made from one key dict\<close>

lemma map_add_same: "(m::attrs) ++ m = m"
  by (rule ext) (simp add: map_add_def split: option.split)

lemma map_of_set_key: "map_of (set_key k d kd) = (map_of kd)(k \<mapsto> d)"
  by (induction kd) (auto simp: fun_eq_iff)

lemma keys_set_key: "k \<in> fst ` set kd \<Longrightarrow> map fst (set_key k d kd) = map fst kd"
  by (induction kd) auto

lemma set_key_twice: "set_key k d (set_key k d kd) = set_key k d kd"
  by (induction kd) auto

lemma wt_key_weight:
  "wt (key_weight wk kd) k = (case map_of kd k of None \<Rightarrow> None | Some d \<Rightarrow> weight wk d)"
  by (simp add: wt_def key_weight_def weight_def split: option.split)

lemma key_weight_set_key:
  assumes "wk \<noteq> c" and "map_of kd k = Some d"
  shows "key_weight wk (set_key k (d(c \<mapsto> v)) kd) = key_weight wk kd"
proof (rule ext)
  fix key
  show "key_weight wk (set_key k (d(c \<mapsto> v)) kd) key = key_weight wk kd key"
    using assms by (simp add: key_weight_def map_of_set_key)
qed

lemma pick_SomeD:
  assumes "pick wk kd = Some e"
  shows "\<exists>d. py_min (key_weight wk kd) (map fst kd) = Inr (fst e) \<and> map_of kd (fst e) = Some d \<and>
             snd e = d(''cycle_idx'' \<mapsto> PyInt (fst e))"
  using assms by (auto simp: pick_def split: sum.splits option.splits)

lemma pick_mark:
  assumes "wk \<noteq> ''cycle_idx''"
  shows "pick wk (mark wk kd) = pick wk kd"
proof (cases "pick wk kd")
  case None
  then show ?thesis by (simp add: mark_def)
next
  case (Some e)
  from pick_SomeD [OF Some] obtain d where
    pm: "py_min (key_weight wk kd) (map fst kd) = Inr (fst e)" and
    d: "map_of kd (fst e) = Some d" and
    e: "snd e = d(''cycle_idx'' \<mapsto> PyInt (fst e))" by blast
  have m: "mark wk kd = set_key (fst e) (snd e) kd" using Some by (simp add: mark_def)
  have "fst e \<in> fst ` set kd" using d by (metis map_of_eq_None_iff option.distinct(1))
  then have keys: "map fst (mark wk kd) = map fst kd" by (simp add: m keys_set_key)
  have kw: "key_weight wk (mark wk kd) = key_weight wk kd"
    unfolding m e by (rule key_weight_set_key [OF assms d])
  have look: "map_of (mark wk kd) (fst e) = Some (snd e)" by (simp add: m map_of_set_key)
  have "pick wk (mark wk kd) = Some (fst e, (snd e)(''cycle_idx'' \<mapsto> PyInt (fst e)))"
    by (simp add: pick_def keys kw pm look)
  also have "(snd e)(''cycle_idx'' \<mapsto> PyInt (fst e)) = snd e" by (simp add: e)
  finally show ?thesis using Some by simp
qed

lemma mark_mark:
  assumes "wk \<noteq> ''cycle_idx''"
  shows "mark wk (mark wk kd) = mark wk kd"
proof (cases "pick wk kd")
  case None
  then show ?thesis by (simp add: mark_def)
next
  case (Some e)
  have "mark wk (mark wk kd) = set_key (fst e) (snd e) (mark wk kd)"
    using pick_mark [OF assms, of kd] Some by (simp add: mark_def [of wk "mark wk kd"])
  also have "\<dots> = mark wk kd" using Some by (simp add: mark_def set_key_twice)
  finally show ?thesis .
qed

lemma map_of_distinct_mem:
  "distinct (map fst kd) \<Longrightarrow> c \<in> set kd \<Longrightarrow> map_of kd (fst c) = Some (snd c)"
  by (cases c) simp

lemma pick_good:
  assumes "good_kd wk kd"
  shows "\<exists>k d before after.
           pick wk kd = Some (k, d(''cycle_idx'' \<mapsto> PyInt k)) \<and> kd = before @ (k, d) # after \<and>
           (\<forall>c \<in> set before. the (weight wk d) < the (weight wk (snd c))) \<and>
           (\<forall>c \<in> set after. the (weight wk d) \<le> the (weight wk (snd c)))"
proof -
  let ?f = "key_weight wk kd"
  have dist: "distinct (map fst kd)" and ne: "kd \<noteq> []"
    and ws: "\<forall>c \<in> set kd. weight wk (snd c) \<noteq> None"
    using assms by (simp_all add: good_kd_def)
  have wt_mem: "wt ?f (fst c) = weight wk (snd c)" if "c \<in> set kd" for c
    using map_of_distinct_mem [OF dist that] by (simp add: wt_key_weight)
  have "\<forall>k \<in> set (map fst kd). wt ?f k \<noteq> None"
    using wt_mem ws by auto
  with py_min_split [of "map fst kd" ?f] ne obtain r where
    r: "py_min ?f (map fst kd) = Inr r" and fm: "first_min_at ?f (map fst kd) r" by auto
  from fm obtain bks aks where split: "map fst kd = bks @ r # aks"
    and lt: "\<forall>k \<in> set bks. the (wt ?f r) < the (wt ?f k)"
    and le: "\<forall>k \<in> set aks. the (wt ?f r) \<le> the (wt ?f k)"
    unfolding first_min_at_def by blast
  from split obtain before rest where kd1: "kd = before @ rest" and b: "bks = map fst before"
    and rest: "r # aks = map fst rest" by (auto simp: map_eq_append_conv)
  from rest obtain c after where kd2: "rest = c # after" and c: "fst c = r"
    and a: "aks = map fst after" by (auto simp: Cons_eq_map_conv)
  obtain d where cd: "c = (r, d)" using c by (cases c) auto
  have kd: "kd = before @ (r, d) # after" using kd1 kd2 cd by simp
  have mem: "(r, d) \<in> set kd" using kd by simp
  have look: "map_of kd r = Some d" using map_of_distinct_mem [OF dist mem] by simp
  have wr: "wt ?f r = weight wk d" using wt_mem [OF mem] by simp
  have p: "pick wk kd = Some (r, d(''cycle_idx'' \<mapsto> PyInt r))"
    by (simp add: pick_def r look)
  have l1: "\<forall>c \<in> set before. the (weight wk d) < the (weight wk (snd c))"
  proof
    fix c assume c: "c \<in> set before"
    then have "c \<in> set kd" using kd by simp
    then have "wt ?f (fst c) = weight wk (snd c)" by (rule wt_mem)
    moreover have "fst c \<in> set bks" using c b by simp
    ultimately show "the (weight wk d) < the (weight wk (snd c))" using lt wr by metis
  qed
  have l2: "\<forall>c \<in> set after. the (weight wk d) \<le> the (weight wk (snd c))"
  proof
    fix c assume c: "c \<in> set after"
    then have "c \<in> set kd" using kd by simp
    then have "wt ?f (fst c) = weight wk (snd c)" by (rule wt_mem)
    moreover have "fst c \<in> set aks" using c a by simp
    ultimately show "the (weight wk d) \<le> the (weight wk (snd c))" using le wr by metis
  qed
  show ?thesis using p kd l1 l2 by blast
qed

section \<open>Pairs, look-ups and the loops of the Graph Reducer\<close>

lemma same_pair_commute: "same_pair p u v = same_pair p v u"
  unfolding same_pair_def by blast

lemma same_pair_trans: "same_pair (a, b) u v \<Longrightarrow> same_pair p a b = same_pair p u v"
  unfolding same_pair_def by (cases p) force

lemma find_pair_commute: "find_pair u v E = find_pair v u E"
  by (induction E) (simp_all add: same_pair_commute [of _ u v])

lemma same_pair_find:
  "same_pair (a, b) u v \<Longrightarrow> find_pair a b E = find_pair u v E"
  by (induction E) (simp_all add: same_pair_trans)

lemma find_pair_map_pair:
  "find_pair a b (map_pair u v f E) =
     (if same_pair (a, b) u v then map_option f (find_pair a b E) else find_pair a b E)"
proof (induction E)
  case Nil
  show ?case by simp
next
  case (Cons e es)
  show ?case
  proof (cases "same_pair (a, b) u v")
    case True
    then have eq: "same_pair (fst e) a b = same_pair (fst e) u v" by (rule same_pair_trans)
    show ?thesis using True Cons.IH by (simp add: eq)
  next
    case False
    have "\<not> (same_pair (fst e) u v \<and> same_pair (fst e) a b)"
    proof
      assume h: "same_pair (fst e) u v \<and> same_pair (fst e) a b"
      obtain x y where e: "fst e = (x, y)" by (cases "fst e")
      from h e have "same_pair (x, y) u v" by simp
      then have "same_pair (a, b) x y = same_pair (a, b) u v" by (rule same_pair_trans)
      moreover have "same_pair (a, b) x y" using h e unfolding same_pair_def by force
      ultimately show False using False by simp
    qed
    then show ?thesis using False Cons.IH by auto
  qed
qed

lemma neighbours_map_pair: "neighbours a (map_pair u v f E) = neighbours a E"
  by (induction E) auto

lemma find_pair_SomeD:
  "find_pair u v E = Some x \<Longrightarrow> \<exists>e \<in> set E. same_pair (fst e) u v \<and> snd e = x"
  by (induction E) (auto split: if_splits)

lemma find_pair_neighbours: "v \<in> set (neighbours u E) \<longleftrightarrow> find_pair u v E \<noteq> None"
  by (induction E) (auto simp: same_pair_def)

lemma good_found:
  assumes "well_formed g" and "weighted wk g" and "find_pair u v (mg_adj g) = Some kd"
  shows "good_kd wk kd" and "u \<in> fst ` set (mg_node g)" and "v \<in> fst ` set (mg_node g)"
proof -
  from find_pair_SomeD [OF assms(3)] obtain e where e: "e \<in> set (mg_adj g)"
    "same_pair (fst e) u v" "snd e = kd" by blast
  from assms(1) e(1) have wf: "fst (fst e) \<in> fst ` set (mg_node g)"
    "snd (fst e) \<in> fst ` set (mg_node g)" "distinct (map fst (snd e))"
    unfolding well_formed_def by blast+
  from assms(2) e(1) have w: "snd e \<noteq> []" "\<forall>c \<in> set (snd e). weight wk (snd c) \<noteq> None"
    unfolding weighted_def by blast+
  show "good_kd wk kd" using wf(3) w e(3) by (simp add: good_kd_def)
  show "u \<in> fst ` set (mg_node g)" using wf(1,2) e(2) by (auto simp: same_pair_def)
  show "v \<in> fst ` set (mg_node g)" using wf(1,2) e(2) by (auto simp: same_pair_def)
qed

lemma reduce_pair_eq:
  assumes "mg_getitem g m1 m2 = Inr kd" and "pick wk kd = Some e"
  shows "reduce_pair wk m1 m2 (g, sg) =
           Inr (g\<lparr> mg_adj := map_pair m1 m2 (set_key (fst e) (snd e)) (mg_adj g) \<rparr>,
                sg_add_edge m1 m2 (snd e) sg)"
proof -
  from pick_SomeD [OF assms(2)] obtain d where
    pm: "py_min (key_weight wk kd) (map fst kd) = Inr (fst e)" and
    d: "map_of kd (fst e) = Some d" and
    e: "snd e = d(''cycle_idx'' \<mapsto> PyInt (fst e))" by blast
  have ew: "edge_weight wk g m1 m2 = key_weight wk kd"
    by (rule ext) (simp add: edge_weight_def assms(1))
  show ?thesis
    by (simp add: reduce_pair_def assms(1) ew pm d e Let_def)
qed

lemma sg_add_edge_adj:
  "sg_adj (sg_add_edge u v attr sg) a b =
     (if same_pair (a, b) u v then Some (merge_into (sg_adj sg u v) attr) else sg_adj sg a b)"
  by (simp add: sg_add_edge_def sg_add_node_def Let_def)

lemma sg_add_edge_node:
  assumes "sg_node sg u \<noteq> None" and "sg_node sg v \<noteq> None"
  shows "sg_node (sg_add_edge u v attr sg) = sg_node sg"
  using assms by (auto simp: sg_add_edge_def sg_add_node_def Let_def merge_into_def fun_eq_iff)

lemma reduce_pair_step:
  assumes inv: "reducer_inv wk g0 st" and wf: "well_formed g0" and w: "weighted wk g0"
    and wk: "wk \<noteq> ''cycle_idx''" and found: "find_pair m1 m2 (mg_adj g0) \<noteq> None"
  shows "\<exists>st'. reduce_pair wk m1 m2 st = Inr st' \<and> reducer_inv wk g0 st' \<and>
           (\<forall>u v. sg_adj (snd st) u v \<noteq> None \<longrightarrow> sg_adj (snd st') u v \<noteq> None) \<and>
           sg_adj (snd st') m1 m2 \<noteq> None"
proof -
  obtain g sg where st: "st = (g, sg)" by (cases st)
  from found obtain kd0 where kd0: "find_pair m1 m2 (mg_adj g0) = Some kd0" by auto
  note good = good_found [OF wf w kd0]
  from pick_good [OF good(1)] obtain e where e: "pick wk kd0 = Some e" by blast
  from inv st kd0 have "find_pair m1 m2 (mg_adj g) = Some kd0 \<or>
      find_pair m1 m2 (mg_adj g) = Some (mark wk kd0)"
    unfolding reducer_inv_def by (metis fst_conv option.simps(9))
  then obtain kd where kd: "find_pair m1 m2 (mg_adj g) = Some kd"
    and kd_alt: "kd = kd0 \<or> kd = mark wk kd0" by blast
  have pk: "pick wk kd = Some e" using kd_alt e pick_mark [OF wk] by auto
  have mk: "mark wk kd = mark wk kd0" using kd_alt mark_mark [OF wk] by auto
  have nodes: "mg_node g = mg_node g0" using inv st by (simp add: reducer_inv_def)
  have gi: "mg_getitem g m1 m2 = Inr kd" using good(2) nodes kd by (simp add: mg_getitem_def)
  define g' where "g' = g\<lparr> mg_adj := map_pair m1 m2 (set_key (fst e) (snd e)) (mg_adj g) \<rparr>"
  define sg' where "sg' = sg_add_edge m1 m2 (snd e) sg"
  have step: "reduce_pair wk m1 m2 st = Inr (g', sg')"
    unfolding st g'_def sg'_def by (rule reduce_pair_eq [OF gi pk])
  have sk: "set_key (fst e) (snd e) kd = mark wk kd0" using pk mk by (simp add: mark_def)
  have old: "sg_adj sg m1 m2 = None \<or> sg_adj sg m1 m2 = Some (snd e)"
    using inv st kd0 e unfolding reducer_inv_def by (metis option.simps(5,9) snd_conv)
  have merged: "merge_into (sg_adj sg m1 m2) (snd e) = snd e"
    using old by (auto simp: merge_into_def map_add_same)
  have adj': "sg_adj sg' a b = (if same_pair (a, b) m1 m2 then Some (snd e) else sg_adj sg a b)" for a b
    by (simp add: sg'_def sg_add_edge_adj merged)
  have i1: "mg_node g' = mg_node g0" using nodes by (simp add: g'_def)
  have i2: "\<forall>u. neighbours u (mg_adj g') = neighbours u (mg_adj g0)"
    using inv st by (simp add: g'_def neighbours_map_pair reducer_inv_def)
  have i3: "find_pair u v (mg_adj g') = find_pair u v (mg_adj g0) \<or>
            find_pair u v (mg_adj g') = map_option (mark wk) (find_pair u v (mg_adj g0))" for u v
  proof (cases "same_pair (u, v) m1 m2")
    case True
    then have "find_pair u v (mg_adj g) = Some kd" "find_pair u v (mg_adj g0) = Some kd0"
      using kd kd0 by (simp_all add: same_pair_find [OF True])
    then show ?thesis using True sk by (simp add: g'_def find_pair_map_pair)
  next
    case False
    then have "find_pair u v (mg_adj g') = find_pair u v (mg_adj g)"
      by (simp add: g'_def find_pair_map_pair)
    then show ?thesis using inv st unfolding reducer_inv_def by (metis fst_conv)
  qed
  have sgn: "sg_node sg = map_of (mg_node g0)" using inv st by (simp add: reducer_inv_def)
  have "sg_node sg m1 \<noteq> None" "sg_node sg m2 \<noteq> None"
    using good(2,3) sgn by (simp_all add: map_of_eq_None_iff)
  then have i4: "sg_node sg' = map_of (mg_node g0)"
    using sgn by (simp add: sg'_def sg_add_edge_node)
  have i5: "sg_adj sg' u v = None \<or>
            sg_adj sg' u v =
              map_option snd (case find_pair u v (mg_adj g0) of None \<Rightarrow> None | Some kd \<Rightarrow> pick wk kd)" for u v
  proof (cases "same_pair (u, v) m1 m2")
    case True
    then have "find_pair u v (mg_adj g0) = Some kd0" using kd0 by (simp add: same_pair_find [OF True])
    then show ?thesis using True e by (simp add: adj')
  next
    case False
    then have "sg_adj sg' u v = sg_adj sg u v" by (simp add: adj')
    then show ?thesis using inv st unfolding reducer_inv_def by (metis snd_conv)
  qed
  have inv': "reducer_inv wk g0 (g', sg')"
    unfolding reducer_inv_def using i1 i2 i3 i4 i5 by simp
  have mono: "\<forall>u v. sg_adj (snd st) u v \<noteq> None \<longrightarrow> sg_adj (snd (g', sg')) u v \<noteq> None"
    by (simp add: st adj')
  have here: "sg_adj (snd (g', sg')) m1 m2 \<noteq> None" by (simp add: adj' same_pair_def)
  show ?thesis using step inv' mono here by blast
qed

lemma reduce_neighbours_ok:
  assumes wf: "well_formed g0" and w: "weighted wk g0" and wk: "wk \<noteq> ''cycle_idx''"
  shows "reducer_inv wk g0 st \<Longrightarrow> \<forall>m2 \<in> set ms. find_pair m1 m2 (mg_adj g0) \<noteq> None \<Longrightarrow>
     \<exists>st'. reduce_neighbours wk m1 ms st = (None, st') \<and> reducer_inv wk g0 st' \<and>
       (\<forall>u v. sg_adj (snd st) u v \<noteq> None \<longrightarrow> sg_adj (snd st') u v \<noteq> None) \<and>
       (\<forall>m2 \<in> set ms. sg_adj (snd st') m1 m2 \<noteq> None)"
proof (induction ms arbitrary: st)
  case Nil
  then show ?case by simp
next
  case (Cons m2 ms)
  have found: "find_pair m1 m2 (mg_adj g0) \<noteq> None" using Cons.prems(2) by simp
  from reduce_pair_step [OF Cons.prems(1) wf w wk found] obtain st1 where
    s1: "reduce_pair wk m1 m2 st = Inr st1" and i1: "reducer_inv wk g0 st1" and
    m1: "\<forall>u v. sg_adj (snd st) u v \<noteq> None \<longrightarrow> sg_adj (snd st1) u v \<noteq> None" and
    h1: "sg_adj (snd st1) m1 m2 \<noteq> None" by blast
  have rest: "\<forall>m2 \<in> set ms. find_pair m1 m2 (mg_adj g0) \<noteq> None" using Cons.prems(2) by simp
  from Cons.IH [OF i1 rest] obtain st2 where
    s2: "reduce_neighbours wk m1 ms st1 = (None, st2)" and i2: "reducer_inv wk g0 st2" and
    m2: "\<forall>u v. sg_adj (snd st1) u v \<noteq> None \<longrightarrow> sg_adj (snd st2) u v \<noteq> None" and
    h2: "\<forall>m2 \<in> set ms. sg_adj (snd st2) m1 m2 \<noteq> None" by blast
  have "reduce_neighbours wk m1 (m2 # ms) st = (None, st2)" using s1 s2 by simp
  moreover have "\<forall>u v. sg_adj (snd st) u v \<noteq> None \<longrightarrow> sg_adj (snd st2) u v \<noteq> None"
    using m1 m2 by blast
  moreover have "\<forall>m \<in> set (m2 # ms). sg_adj (snd st2) m1 m \<noteq> None"
    using h1 h2 m2 by simp
  ultimately show ?case using i2 by blast
qed

lemma reduce_nodes_ok:
  assumes wf: "well_formed g0" and w: "weighted wk g0" and wk: "wk \<noteq> ''cycle_idx''"
  shows "reducer_inv wk g0 st \<Longrightarrow>
     \<exists>st'. reduce_nodes wk ns st = (None, st') \<and> reducer_inv wk g0 st' \<and>
       (\<forall>u v. sg_adj (snd st) u v \<noteq> None \<longrightarrow> sg_adj (snd st') u v \<noteq> None) \<and>
       (\<forall>m1 \<in> set ns. \<forall>m2. find_pair m1 m2 (mg_adj g0) \<noteq> None \<longrightarrow> sg_adj (snd st') m1 m2 \<noteq> None)"
proof (induction ns arbitrary: st)
  case Nil
  then show ?case by simp
next
  case (Cons m1 ns)
  have nb: "neighbours m1 (mg_adj (fst st)) = neighbours m1 (mg_adj g0)"
    using Cons.prems by (simp add: reducer_inv_def)
  have all: "\<forall>m2 \<in> set (neighbours m1 (mg_adj g0)). find_pair m1 m2 (mg_adj g0) \<noteq> None"
    by (simp add: find_pair_neighbours)
  from reduce_neighbours_ok [OF wf w wk Cons.prems all] obtain st1 where
    s1: "reduce_neighbours wk m1 (neighbours m1 (mg_adj g0)) st = (None, st1)" and
    i1: "reducer_inv wk g0 st1" and
    mo1: "\<forall>u v. sg_adj (snd st) u v \<noteq> None \<longrightarrow> sg_adj (snd st1) u v \<noteq> None" and
    h1: "\<forall>m2 \<in> set (neighbours m1 (mg_adj g0)). sg_adj (snd st1) m1 m2 \<noteq> None" by blast
  from Cons.IH [OF i1] obtain st2 where
    s2: "reduce_nodes wk ns st1 = (None, st2)" and i2: "reducer_inv wk g0 st2" and
    mo2: "\<forall>u v. sg_adj (snd st1) u v \<noteq> None \<longrightarrow> sg_adj (snd st2) u v \<noteq> None" and
    h2: "\<forall>m1 \<in> set ns. \<forall>m2. find_pair m1 m2 (mg_adj g0) \<noteq> None \<longrightarrow> sg_adj (snd st2) m1 m2 \<noteq> None"
    by blast
  have "reduce_nodes wk (m1 # ns) st = (None, st2)" using s1 s2 nb by simp
  moreover have "\<forall>u v. sg_adj (snd st) u v \<noteq> None \<longrightarrow> sg_adj (snd st2) u v \<noteq> None"
    using mo1 mo2 by blast
  moreover have "\<forall>m \<in> set (m1 # ns). \<forall>m2. find_pair m m2 (mg_adj g0) \<noteq> None \<longrightarrow>
      sg_adj (snd st2) m m2 \<noteq> None"
  proof (intro ballI allI impI)
    fix m m2 assume m: "m \<in> set (m1 # ns)" and f: "find_pair m m2 (mg_adj g0) \<noteq> None"
    show "sg_adj (snd st2) m m2 \<noteq> None"
    proof (cases "m = m1")
      case True
      then have "m2 \<in> set (neighbours m1 (mg_adj g0))" using f by (simp add: find_pair_neighbours)
      then show ?thesis using h1 mo2 True by blast
    next
      case False
      then show ?thesis using m f h2 by simp
    qed
  qed
  ultimately show ?case using i2 by blast
qed

lemma copy_nodes_ok:
  "\<forall>n. sg_node sg n = None \<or> sg_node sg n = map_of (mg_node g) n \<Longrightarrow>
   set ns \<subseteq> fst ` set (mg_node g) \<Longrightarrow>
   \<exists>sg'. copy_nodes g ns sg = Inr sg' \<and> sg_adj sg' = sg_adj sg \<and>
     (\<forall>n. sg_node sg' n = (if n \<in> set ns then map_of (mg_node g) n else sg_node sg n))"
proof (induction ns arbitrary: sg)
  case Nil
  then show ?case by simp
next
  case (Cons n ns)
  from Cons.prems(2) have "n \<in> fst ` set (mg_node g)" by simp
  then obtain attr where attr: "map_of (mg_node g) n = Some attr"
    by (metis map_of_eq_None_iff not_Some_eq)
  define sg1 where "sg1 = sg_add_node n attr sg"
  have old: "sg_node sg n = None \<or> sg_node sg n = Some attr" using Cons.prems(1) attr by metis
  have merged: "merge_into (sg_node sg n) attr = attr"
    using old by (auto simp: merge_into_def map_add_same)
  have node1: "sg_node sg1 = (sg_node sg)(n \<mapsto> attr)" by (simp add: sg1_def sg_add_node_def merged)
  have adj1: "sg_adj sg1 = sg_adj sg" by (simp add: sg1_def sg_add_node_def)
  have p1: "\<forall>m. sg_node sg1 m = None \<or> sg_node sg1 m = map_of (mg_node g) m"
    using Cons.prems(1) attr by (simp add: node1)
  have p2: "set ns \<subseteq> fst ` set (mg_node g)" using Cons.prems(2) by simp
  from Cons.IH [OF p1 p2] obtain sg' where
    c: "copy_nodes g ns sg1 = Inr sg'" and a: "sg_adj sg' = sg_adj sg1" and
    nd: "\<forall>m. sg_node sg' m = (if m \<in> set ns then map_of (mg_node g) m else sg_node sg1 m)"
    by blast
  have "copy_nodes g (n # ns) sg = Inr sg'" using attr c by (simp add: sg1_def)
  moreover have "sg_adj sg' = sg_adj sg" using a adj1 by simp
  moreover have "\<forall>m. sg_node sg' m = (if m \<in> set (n # ns) then map_of (mg_node g) m else sg_node sg m)"
    using nd attr by (simp add: node1)
  ultimately show ?case by blast
qed

lemma to_simple_graph_run:
  assumes wf: "well_formed g" and w: "weighted wk g" and wk: "wk \<noteq> ''cycle_idx''"
  shows "\<exists>st. to_simple_graph g wk = (Returned (snd st), fst st) \<and> reducer_inv wk g st \<and>
           (\<forall>m1 \<in> set (map fst (mg_node g)). \<forall>m2. find_pair m1 m2 (mg_adj g) \<noteq> None \<longrightarrow>
              sg_adj (snd st) m1 m2 \<noteq> None)"
proof -
  have "\<forall>n. sg_node empty_graph n = None \<or> sg_node empty_graph n = map_of (mg_node g) n"
    by (simp add: empty_graph_def)
  moreover have "set (map fst (mg_node g)) \<subseteq> fst ` set (mg_node g)" by simp
  ultimately obtain sg0 where c: "copy_nodes g (map fst (mg_node g)) empty_graph = Inr sg0"
    and a0: "sg_adj sg0 = sg_adj empty_graph"
    and n0: "\<forall>n. sg_node sg0 n = (if n \<in> set (map fst (mg_node g)) then map_of (mg_node g) n
                                    else sg_node empty_graph n)"
    using copy_nodes_ok by blast
  have node0: "sg_node sg0 = map_of (mg_node g)"
  proof (rule ext)
    fix n show "sg_node sg0 n = map_of (mg_node g) n"
    proof (cases "n \<in> fst ` set (mg_node g)")
      case True
      then show ?thesis using n0 by simp
    next
      case False
      then have "map_of (mg_node g) n = None" by (simp add: map_of_eq_None_iff)
      then show ?thesis using n0 False by (simp add: empty_graph_def)
    qed
  qed
  have inv0: "reducer_inv wk g (g, sg0)"
    by (simp add: reducer_inv_def node0 a0 empty_graph_def)
  from reduce_nodes_ok [OF wf w wk inv0] obtain st where
    r: "reduce_nodes wk (map fst (mg_node g)) (g, sg0) = (None, st)" and
    inv: "reducer_inv wk g st" and
    cov: "\<forall>m1 \<in> set (map fst (mg_node g)). \<forall>m2. find_pair m1 m2 (mg_adj g) \<noteq> None \<longrightarrow>
            sg_adj (snd st) m1 m2 \<noteq> None" by blast
  have res: "to_simple_graph g wk = (Returned (snd st), fst st)"
    by (simp add: to_simple_graph_def c r)
  show ?thesis using res inv cov by blast
qed

lemma mark_keeps_other_attributes:
  assumes "name \<noteq> ''cycle_idx''"
  shows "(case map_of (mark wk kd) key of None \<Rightarrow> None | Some d \<Rightarrow> d name) =
         (case map_of kd key of None \<Rightarrow> None | Some d \<Rightarrow> d name)"
proof (cases "pick wk kd")
  case None
  then show ?thesis by (simp add: mark_def)
next
  case (Some e)
  from pick_SomeD [OF Some] obtain d where
    d: "map_of kd (fst e) = Some d" and
    e: "snd e = d(''cycle_idx'' \<mapsto> PyInt (fst e))" by blast
  have "map_of (mark wk kd) = (map_of kd)(fst e \<mapsto> snd e)"
    using Some by (simp add: mark_def map_of_set_key)
  then show ?thesis using d e assms by (cases "key = fst e") simp_all
qed

lemmas reducer_defs =
  to_simple_graph_def empty_graph_def sg_add_node_def sg_add_edge_def merge_into_def
  reduce_pair_def mg_getitem_def same_pair_def py_min_def edge_weight_def key_weight_def
  py_lt_def Let_def

section \<open>Claims about the Graph Reducer\<close>




text \<open>
  C6. The claim says that the reduction leaves the multigraph as it was. On the scenario
  of the specification the call writes \<^verbatim>\<open>cycle_idx\<close> into cycle 2 of the multigraph it
  was given: the attribute is absent before the call and present after it. The nodes
  of the multigraph are as before.
\<close>

theorem to_simple_graph_writes_input:
  "edge_attr scenario_graph 1 2 2 ''cycle_idx'' = None \<and>
   edge_attr (snd (to_simple_graph scenario_graph ''w'')) 1 2 2 ''cycle_idx'' = Some (PyInt 2) \<and>
   mg_node (snd (to_simple_graph scenario_graph ''w'')) = mg_node scenario_graph"
proof -
  have a: "edge_attr scenario_graph 1 2 2 ''cycle_idx'' = None"
    by (simp add: edge_attr_def scenario_graph_def same_pair_def)
  have b: "edge_attr (snd (to_simple_graph scenario_graph ''w'')) 1 2 2 ''cycle_idx'' = Some (PyInt 2)"
    by (simp add: edge_attr_def scenario_graph_def reducer_defs)
  have c: "mg_node (snd (to_simple_graph scenario_graph ''w'')) = mg_node scenario_graph"
    by (simp add: scenario_graph_def reducer_defs)
  show ?thesis using a b c by simp
qed

text \<open>
  What the reduction does leave alone. Under the hypotheses of the amended C5 the simple
  graph has the nodes of the multigraph with their attributes, and the multigraph
  comes back with its nodes and their attributes as they were and with every cycle
  attribute of any other name than \<^verbatim>\<open>cycle_idx\<close> as it was.
\<close>

theorem to_simple_graph_frame:
  assumes wf: "well_formed g" and w: "weighted wk g" and wk: "wk \<noteq> ''cycle_idx''"
  shows "\<exists>sg g'. to_simple_graph g wk = (Returned sg, g') \<and>
           sg_node sg = map_of (mg_node g) \<and> mg_node g' = mg_node g \<and>
           (\<forall>u v key name. name \<noteq> ''cycle_idx'' \<longrightarrow>
              edge_attr g' u v key name = edge_attr g u v key name)"
proof -
  from to_simple_graph_run [OF wf w wk] obtain st where
    res: "to_simple_graph g wk = (Returned (snd st), fst st)" and
    inv: "reducer_inv wk g st" by blast
  have n1: "sg_node (snd st) = map_of (mg_node g)" and n2: "mg_node (fst st) = mg_node g"
    using inv by (simp_all add: reducer_inv_def)
  have attrs: "edge_attr (fst st) u v key name = edge_attr g u v key name"
    if name: "name \<noteq> ''cycle_idx''" for u v key name
  proof -
    have "find_pair u v (mg_adj (fst st)) = find_pair u v (mg_adj g) \<or>
          find_pair u v (mg_adj (fst st)) = map_option (mark wk) (find_pair u v (mg_adj g))"
      using inv by (simp add: reducer_inv_def)
    then show ?thesis
    proof
      assume "find_pair u v (mg_adj (fst st)) = find_pair u v (mg_adj g)"
      then show ?thesis by (simp add: edge_attr_def)
    next
      assume m: "find_pair u v (mg_adj (fst st)) = map_option (mark wk) (find_pair u v (mg_adj g))"
      show ?thesis
      proof (cases "find_pair u v (mg_adj g)")
        case None
        with m show ?thesis by (simp add: edge_attr_def)
      next
        case (Some kd)
        with m show ?thesis
          by (simp add: edge_attr_def mark_keeps_other_attributes [OF name])
      qed
    qed
  qed
  show ?thesis
  proof (intro exI conjI allI impI)
    show "to_simple_graph g wk = (Returned (snd st), fst st)" by (rule res)
    show "sg_node (snd st) = map_of (mg_node g)" by (rule n1)
    show "mg_node (fst st) = mg_node g" by (rule n2)
  next
    fix u v key name
    assume "name \<noteq> ''cycle_idx''"
    then show "edge_attr (fst st) u v key name = edge_attr g u v key name" by (rule attrs)
  qed
qed

theorem to_simple_graph_frame_witness:
  "well_formed scenario_graph \<and> weighted ''w'' scenario_graph \<and>
   (\<exists>sg g'. to_simple_graph scenario_graph ''w'' = (Returned sg, g') \<and>
      sg_node sg = map_of (mg_node scenario_graph) \<and> mg_node g' = mg_node scenario_graph \<and>
      edge_attr g' 1 2 2 ''w'' = Some (PyFloat 2))"
proof -
  have wf: "well_formed scenario_graph"
    by (simp add: well_formed_def scenario_graph_def)
  have w: "weighted ''w'' scenario_graph"
    by (simp add: weighted_def scenario_graph_def weight_def)
  have wk: "''w'' \<noteq> ''cycle_idx''" by simp
  from to_simple_graph_frame [OF wf w wk] obtain sg g' where
    r: "to_simple_graph scenario_graph ''w'' = (Returned sg, g')" and
    n: "sg_node sg = map_of (mg_node scenario_graph)" "mg_node g' = mg_node scenario_graph" and
    a: "\<forall>u v key name. name \<noteq> ''cycle_idx'' \<longrightarrow>
          edge_attr g' u v key name = edge_attr scenario_graph u v key name" by blast
  have "edge_attr g' 1 2 2 ''w'' = edge_attr scenario_graph 1 2 2 ''w''" using a by simp
  also have "\<dots> = Some (PyFloat 2)"
    by (simp add: edge_attr_def scenario_graph_def same_pair_def)
  finally have e: "edge_attr g' 1 2 2 ''w'' = Some (PyFloat 2)" .
  show ?thesis using wf w r n e by blast
qed

section \<open>The loop of the Cycle Manager\<close>




lemma run_cycles_first_raises:
  assumes "\<And>d h. callee m1 m2 d model h = Inl TypeError"
  shows "\<exists>e calls. run_cycles callee m1 m2 prev model config start (c # cs) (graph, []) =
           (Some e, graph, calls) \<and> e \<noteq> AssertionError"
proof (cases "py_getitem (hyperparameter_sets config) (start - 1)")
  case (Inl e)
  then have "e = IndexError" by (auto simp: py_getitem_def split: if_splits)
  with Inl show ?thesis by simp
next
  case (Inr h)
  then show ?thesis using assms by (simp add: Let_def)
qed

lemma call_neb_raises: "call_neb collab m1 m2 d model h = Inl TypeError"
  by (simp add: call_neb_def neb_call_arguments_def neb_parameters_def)

lemma auto_neb_seed_failed:
  "auto_neb_seed m1 m2 graph = Inl e \<Longrightarrow>
   auto_neb pbar collab m1 m2 graph model config =
     \<lparr> result = Raised e, graph_after = graph, neb_calls = [] \<rparr>"
  by (simp add: auto_neb_def auto_neb_with_def)

lemma auto_neb_assert_failed:
  "auto_neb_seed m1 m2 graph = Inr (prev, start) \<Longrightarrow> cycle_count config < start \<Longrightarrow>
   auto_neb pbar collab m1 m2 graph model config =
     \<lparr> result = Raised AssertionError, graph_after = graph, neb_calls = [] \<rparr>"
  by (simp add: auto_neb_def auto_neb_with_def)

lemma auto_neb_first_round_failed:
  assumes seed: "auto_neb_seed m1 m2 graph = Inr (prev, start)" and le: "start \<le> cycle_count config"
  shows "\<exists>e. e \<noteq> AssertionError \<and>
           result (auto_neb pbar collab m1 m2 graph model config) = Raised e \<and>
           graph_after (auto_neb pbar collab m1 m2 graph model config) = graph"
proof -
  have "[start..cycle_count config] = start # [start + 1..cycle_count config]"
    using le by (rule upto_rec1)
  then have cs: "pbar_iter pbar [start..cycle_count config] = start # [start + 1..cycle_count config]"
    by (cases pbar) (simp_all add: pbar_iter_def)
  from run_cycles_first_raises [of "call_neb collab" m1 m2 model prev config start start
      "[start + 1..cycle_count config]" graph, OF call_neb_raises]
  obtain e calls where
    rc: "run_cycles (call_neb collab) m1 m2 prev model config start
           (start # [start + 1..cycle_count config]) (graph, []) = (Some e, graph, calls)"
    and e: "e \<noteq> AssertionError" by blast
  have unfolded: "auto_neb pbar collab m1 m2 graph model config =
      \<lparr> result = Raised e, graph_after = graph, neb_calls = calls \<rparr>"
    using le by (simp add: auto_neb_def auto_neb_with_def seed cs rc del: run_cycles.simps)
  show ?thesis using e by (simp add: unfolded)
qed

lemma auto_neb_raises:
  "\<exists>e. result (auto_neb pbar collab m1 m2 graph model config) = Raised e \<and>
       graph_after (auto_neb pbar collab m1 m2 graph model config) = graph"
proof (cases "auto_neb_seed m1 m2 graph")
  case (Inl e)
  then show ?thesis by (simp add: auto_neb_seed_failed)
next
  case (Inr seed)
  obtain prev start where seed: "seed = (prev, start)" by (cases seed)
  show ?thesis
  proof (cases "start \<le> cycle_count config")
    case True
    with auto_neb_first_round_failed [of m1 m2 graph prev start config pbar collab model] Inr seed
    show ?thesis by blast
  next
    case False
    then have "cycle_count config < start" by simp
    with Inr seed show ?thesis by (simp add: auto_neb_assert_failed)
  qed
qed

lemma pbar_iter_same: "pbar_iter r xs = xs"
  by (cases r) (simp_all add: pbar_iter_def)

lemma explore_reporter_free:
  assumes "\<And>m1 m2 g. \<exists>e. result (cm m1 m2 g) = Raised e"
  shows "explore fuel cm suggest_pair bar n graph = explore fuel cm suggest_pair bar' n graph"
proof (induction fuel arbitrary: n graph)
  case 0
  show ?case by simp
next
  case (Suc fuel)
  show ?case
  proof (cases "suggest_pair n graph")
    case (Pair a b)
    show ?thesis
    proof (cases a)
      case None
      with Pair show ?thesis by simp
    next
      case (Some m1)
      show ?thesis
      proof (cases b)
        case None
        with Pair Some show ?thesis by simp
      next
        case (Some m2)
        from assms [of m1 m2 graph] obtain e where "result (cm m1 m2 graph) = Raised e" by blast
        with Pair \<open>a = Some m1\<close> Some show ?thesis by (simp add: Let_def)
      qed
    qed
  qed
qed

section \<open>Claims about the Cycle Manager\<close>



text \<open>
  C2. The claim says that the loop stores one cycle per index, so that the pair ends
  with the cycles 1 to \<^verbatim>\<open>cycle_count\<close>. The module's \<^verbatim>\<open>auto_neb\<close> raises on every
  input and stores nothing: the look-ups of lines 83 and 85 raise KeyError, line 94
  raises AssertionError, or the first round raises (IndexError from line 98, or
  TypeError from the call of line 99, which gives five arguments to the
  three-parameter \<^verbatim>\<open>neb\<close>). The cycles of the pair are afterwards what they were.
\<close>

theorem auto_neb_stores_no_cycle:
  "(\<exists>e. result (auto_neb pbar collab m1 m2 graph model config) = Raised e) \<and>
   cycle_indices (graph_after (auto_neb pbar collab m1 m2 graph model config)) m1 m2 =
     cycle_indices graph m1 m2"
proof -
  from auto_neb_raises [of pbar collab m1 m2 graph model config] obtain e where
    "result (auto_neb pbar collab m1 m2 graph model config) = Raised e"
    "graph_after (auto_neb pbar collab m1 m2 graph model config) = graph" by blast
  then show ?thesis by auto
qed

text \<open>
  C3. The claim says that a pair with a cycle is resumed from its last cycle. Line 85
  indexes \<^verbatim>\<open>existing_edges\<close>, which is \<^verbatim>\<open>graph[m1][m2]\<close> already, with \<^verbatim>\<open>[m1][m2]\<close>
  again, so for every pair that has a cycle the call raises KeyError before a seed or
  a start index exists.
\<close>

theorem auto_neb_resume_raises:
  assumes "find_pair m1 m2 (mg_adj graph) = Some existing_edges" and "existing_edges \<noteq> []"
  shows "auto_neb_seed m1 m2 graph = Inl KeyError \<and>
         auto_neb pbar collab m1 m2 graph model config =
           \<lparr> result = Raised KeyError, graph_after = graph, neb_calls = [] \<rparr>"
proof -
  have "auto_neb_seed m1 m2 graph = Inl KeyError"
    using assms by (simp add: auto_neb_seed_def mg_getitem_def split: option.split)
  then show ?thesis by (simp add: auto_neb_def auto_neb_with_def)
qed

theorem auto_neb_resume_raises_witness:
  "find_pair 1 2 (mg_adj resumed_graph) =
     Some [(1, [''path_coords'' \<mapsto> Tensor2 [[0], [2], [4]],
                ''target_distances'' \<mapsto> Tensor1 [2, 2], ''w'' \<mapsto> PyFloat 3])] \<and>
   auto_neb_seed 1 2 resumed_graph = Inl KeyError \<and>
   auto_neb Tqdm midpoint_collaborators 1 2 resumed_graph () two_cycles =
     \<lparr> result = Raised KeyError, graph_after = resumed_graph, neb_calls = [] \<rparr>"
proof -
  have f: "find_pair 1 2 (mg_adj resumed_graph) =
     Some [(1, [''path_coords'' \<mapsto> Tensor2 [[0], [2], [4]],
                ''target_distances'' \<mapsto> Tensor1 [2, 2], ''w'' \<mapsto> PyFloat 3])]"
    by (simp add: resumed_graph_def same_pair_def)
  show ?thesis
    using f auto_neb_resume_raises [OF f, of Tqdm midpoint_collaborators "()" two_cycles] by simp
qed

text \<open>
  C4. The claim says that a pair with no cycle yet does not fail. In a MultiGraph two
  nodes with no cycle between them are no neighbours, so \<^verbatim>\<open>graph[m1][m2]\<close> of line 83
  raises KeyError and the branch of lines 89 to 93 is not reached.
\<close>

theorem auto_neb_fresh_pair_raises:
  assumes "find_pair m1 m2 (mg_adj graph) = None"
  shows "auto_neb_seed m1 m2 graph = Inl KeyError \<and>
         auto_neb pbar collab m1 m2 graph model config =
           \<lparr> result = Raised KeyError, graph_after = graph, neb_calls = [] \<rparr>"
proof -
  have "auto_neb_seed m1 m2 graph = Inl KeyError"
    using assms by (simp add: auto_neb_seed_def mg_getitem_def)
  then show ?thesis by (simp add: auto_neb_def auto_neb_with_def)
qed

theorem auto_neb_fresh_pair_raises_witness:
  "find_pair 1 2 (mg_adj fresh_pair_graph) = None \<and>
   auto_neb_seed 1 2 fresh_pair_graph = Inl KeyError \<and>
   auto_neb Tqdm midpoint_collaborators 1 2 fresh_pair_graph () two_cycles =
     \<lparr> result = Raised KeyError, graph_after = fresh_pair_graph, neb_calls = [] \<rparr>"
proof -
  have f: "find_pair 1 2 (mg_adj fresh_pair_graph) = None"
    by (simp add: fresh_pair_graph_def)
  show ?thesis
    using f auto_neb_fresh_pair_raises [OF f, of Tqdm midpoint_collaborators "()" two_cycles] by simp
qed





section \<open>Claims about persistence and the progress reporter\<close>

text \<open>
  C9. When the file can be opened and unpickled, \<^verbatim>\<open>load_pickle_graph\<close> raises the
  ValueError whose message starts with the file name exactly when the object is no
  instance of MultiGraph, and returns the object itself when it is one.
\<close>

theorem load_pickle_graph_validates:
  assumes "files graph_file_name = Some content" and "pickle_load content = Inr obj"
  shows "(load_pickle_graph files pickle_load graph_file_name =
            Inl (ValueError (graph_file_name @ '' does not contain a nx.MultiGraph''))
          \<longleftrightarrow> \<not> isinstance_MultiGraph obj) \<and>
         (isinstance_MultiGraph obj \<longrightarrow>
            load_pickle_graph files pickle_load graph_file_name = Inr obj)"
  using assms by (simp add: load_pickle_graph_def)

theorem load_pickle_graph_validates_witness:
  "load_pickle_graph example_files example_pickle_load ''graph.p'' =
     Inr (ObjMultiGraph scenario_graph) \<and>
   load_pickle_graph example_files example_pickle_load ''other.p'' =
     Inl (ValueError ''other.p does not contain a nx.MultiGraph'')"
proof -
  have f1: "example_files ''graph.p'' = Some [1]" and f2: "example_files ''other.p'' = Some [2]"
    by (simp_all add: example_files_def)
  have p1: "example_pickle_load [1] = Inr (ObjMultiGraph scenario_graph)"
    and p2: "example_pickle_load [2] = Inr (ObjGraph empty_graph)"
    by (simp_all add: example_pickle_load_def)
  show ?thesis
    using load_pickle_graph_validates [where files = example_files and pickle_load = example_pickle_load
        and graph_file_name = "''graph.p''" and content = "[1]", OF f1 p1]
      load_pickle_graph_validates [where files = example_files and pickle_load = example_pickle_load
        and graph_file_name = "''other.p''" and content = "[2]", OF f2 p2]
    by simp
qed


text \<open>
  In the module as it is no call of \<^verbatim>\<open>auto_neb\<close> returns, so line 111 is not reached
  and the two reporters cannot be told apart.
\<close>

theorem landscape_exploration_same_under_both_reporters:
  "landscape_exploration fuel Fallback collab suggest_pair graph model config =
   landscape_exploration fuel Tqdm collab suggest_pair graph model config"
proof -
  have same: "auto_neb_with Fallback (call_neb collab) m1 m2 g model config =
              auto_neb_with Tqdm (call_neb collab) m1 m2 g model config" for m1 m2 g
    unfolding auto_neb_with_def pbar_iter_same ..
  have raises: "\<exists>e. result (auto_neb_with Tqdm (call_neb collab) m1 m2 g model config) = Raised e"
    for m1 m2 g
    using auto_neb_raises [of Tqdm collab m1 m2 g model config]
    by (auto simp: auto_neb_def)
  show ?thesis
    unfolding landscape_exploration_def landscape_exploration_with_def same
    by (rule explore_reporter_free) (rule raises)
qed

end
